theory Spec2Isabelle
  imports Complex_Main "HOL-Library.Product_Lexorder"
begin

section \<open>Python strings\<close>

text \<open>
  A Python \<open>str\<close> is a sequence of code points. The model covers the code points
  0..255 (Latin-1), one \<open>char\<close> each, so \<open>length\<close> counts code points as Python's
  \<open>len\<close> does. \<open>str.isspace\<close>, \<open>str.lower\<close> and \<open>str.strip\<close> are written out
  for these code points as CPython 3.11 computes them.
\<close>

definition py_isspace :: "char \<Rightarrow> bool" where
  "py_isspace c =
     (let n = (of_char c :: nat)
      in (9 \<le> n \<and> n \<le> 13) \<or> (28 \<le> n \<and> n \<le> 32) \<or> n = 133 \<or> n = 160)"

definition py_lower_char :: "char \<Rightarrow> char" where
  "py_lower_char c =
     (let n = (of_char c :: nat)
      in if (65 \<le> n \<and> n \<le> 90) \<or> (192 \<le> n \<and> n \<le> 222 \<and> n \<noteq> 215)
         then char_of (n + 32) else c)"

definition py_lower :: "string \<Rightarrow> string" where
  "py_lower s = map py_lower_char s"

definition py_lstrip :: "string \<Rightarrow> string" where
  "py_lstrip s = dropWhile py_isspace s"

definition py_rstrip :: "string \<Rightarrow> string" where
  "py_rstrip s = rev (dropWhile py_isspace (rev s))"

definition py_strip :: "string \<Rightarrow> string" where
  "py_strip s = py_rstrip (py_lstrip s)"

section \<open>difflib.SequenceMatcher\<close>

text \<open>
  \<open>TextProcessor\<close> computes similarity with \<open>SequenceMatcher(None, a, b).ratio()\<close> of
  the standard library. The matcher is embedded from CPython 3.11's \<open>difflib.py\<close>, with
  \<open>isjunk = None\<close> and \<open>autojunk = True\<close> as the constructor call fixes them.
  The ratio is a rational number here; Python computes it in binary floating point.
\<close>

type_synonym 'a b2j = "'a \<rightharpoonup> nat list"

text \<open>\<open>indices = b2j.setdefault(elt, []); indices.append(i)\<close>\<close>

definition chain_step :: "nat \<times> 'a \<Rightarrow> 'a b2j \<Rightarrow> 'a b2j" where
  "chain_step p m =
     (case p of (i, elt) \<Rightarrow>
        m(elt \<mapsto> (case m elt of None \<Rightarrow> [] | Some indices \<Rightarrow> indices) @ [i]))"

text \<open>
  \<open>__chain_b\<close>: index the elements of \<open>b\<close>; no junk is purged since \<open>isjunk\<close> is
  \<open>None\<close>; when \<open>b\<close> has at least 200 elements, every element with more than
  \<open>n // 100 + 1\<close> occurrences is popular and removed from \<open>b2j\<close>.
\<close>

definition chain_b :: "'a list \<Rightarrow> 'a b2j" where
  "chain_b b =
     (let b2j = fold chain_step (enumerate 0 b) Map.empty;
          n = length b
      in if n \<ge> 200
         then (let ntest = n div 100 + 1
               in (\<lambda>elt. case b2j elt of None \<Rightarrow> None
                          | Some idxs \<Rightarrow> if length idxs > ntest then None else Some idxs))
         else b2j)"

text \<open>\<open>bjunk\<close> is the empty set, so \<open>isbjunk\<close> is false of every element.\<close>

definition isbjunk :: "'a \<Rightarrow> bool" where
  "isbjunk x = False"

type_synonym match = "nat \<times> nat \<times> nat"

text \<open>
  \<open>j2len.get(key, 0)\<close>. The key is \<open>j - 1\<close>, an integer that is \<open>-1\<close> at \<open>j = 0\<close>
  and then never present.
\<close>

definition j2lenget :: "(nat \<rightharpoonup> nat) \<Rightarrow> int \<Rightarrow> nat" where
  "j2lenget j2len key =
     (if key < 0 then 0 else (case j2len (nat key) of None \<Rightarrow> 0 | Some v \<Rightarrow> v))"

text \<open>
  The inner loop of \<open>find_longest_match\<close> over the indices \<open>j\<close> of \<open>a[i]\<close> in
  \<open>b\<close>. \<open>i-k+1\<close> is \<open>i + 1 - k\<close> (\<open>k \<le> i + 1\<close> always).
\<close>

fun flm_inner ::
  "nat \<Rightarrow> nat \<Rightarrow> nat \<Rightarrow> (nat \<rightharpoonup> nat) \<Rightarrow> nat list \<Rightarrow> (nat \<rightharpoonup> nat) \<Rightarrow> match
     \<Rightarrow> (nat \<rightharpoonup> nat) \<times> match" where
  "flm_inner i blo bhi j2len [] newj2len best = (newj2len, best)"
| "flm_inner i blo bhi j2len (j # js) newj2len best =
     (if j < blo then flm_inner i blo bhi j2len js newj2len best
      else if j \<ge> bhi then (newj2len, best)
      else
        (let k = j2lenget j2len (int j - 1) + 1;
             newj2len' = newj2len(j \<mapsto> k)
         in if k > snd (snd best)
            then flm_inner i blo bhi j2len js newj2len' (i + 1 - k, j + 1 - k, k)
            else flm_inner i blo bhi j2len js newj2len' best))"

text \<open>One iteration of \<open>for i in range(alo, ahi)\<close>; the state is \<open>(j2len, best)\<close>.\<close>

definition flm_row ::
  "'a list \<Rightarrow> 'a b2j \<Rightarrow> nat \<Rightarrow> nat \<Rightarrow> nat \<Rightarrow> (nat \<rightharpoonup> nat) \<times> match
     \<Rightarrow> (nat \<rightharpoonup> nat) \<times> match" where
  "flm_row a b2j blo bhi i st =
     flm_inner i blo bhi (fst st)
       (case b2j (a ! i) of None \<Rightarrow> [] | Some js \<Rightarrow> js) Map.empty (snd st)"

text \<open>
  The four extension loops. \<open>want\<close> is the junk status the loop asks of the element of
  \<open>b\<close>: \<open>False\<close> for the first two loops, \<open>True\<close> for the last two.
\<close>

function extend_back :: "'a list \<Rightarrow> 'a list \<Rightarrow> nat \<Rightarrow> nat \<Rightarrow> bool \<Rightarrow> match \<Rightarrow> match" where
  "extend_back a b alo blo want (besti, bestj, bestsize) =
     (if besti > alo \<and> bestj > blo \<and> isbjunk (b ! (bestj - 1)) = want
         \<and> a ! (besti - 1) = b ! (bestj - 1)
      then extend_back a b alo blo want (besti - 1, bestj - 1, bestsize + 1)
      else (besti, bestj, bestsize))"
  by pat_completeness auto
termination
  by (relation "measure (\<lambda>(a, b, alo, blo, want, besti, bestj, bestsize). besti)") auto

function extend_fwd :: "'a list \<Rightarrow> 'a list \<Rightarrow> nat \<Rightarrow> nat \<Rightarrow> bool \<Rightarrow> match \<Rightarrow> match" where
  "extend_fwd a b ahi bhi want (besti, bestj, bestsize) =
     (if besti + bestsize < ahi \<and> bestj + bestsize < bhi
         \<and> isbjunk (b ! (bestj + bestsize)) = want
         \<and> a ! (besti + bestsize) = b ! (bestj + bestsize)
      then extend_fwd a b ahi bhi want (besti, bestj, bestsize + 1)
      else (besti, bestj, bestsize))"
  by pat_completeness auto
termination
  by (relation "measure (\<lambda>(a, b, ahi, bhi, want, besti, bestj, bestsize).
                           ahi - (besti + bestsize))") auto

definition find_longest_match ::
  "'a list \<Rightarrow> 'a list \<Rightarrow> 'a b2j \<Rightarrow> nat \<Rightarrow> nat \<Rightarrow> nat \<Rightarrow> nat \<Rightarrow> match" where
  "find_longest_match a b b2j alo ahi blo bhi =
     (let best0 = snd (fold (flm_row a b2j blo bhi) [alo..<ahi] (Map.empty, (alo, blo, 0)));
          best1 = extend_back a b alo blo False best0;
          best2 = extend_fwd a b ahi bhi False best1;
          best3 = extend_back a b alo blo True best2;
          best4 = extend_fwd a b ahi bhi True best3
      in best4)"

text \<open>
  The work list of \<open>get_matching_blocks\<close>. Python pops from and appends to the end of
  \<open>queue\<close>; here the head of the list is that end, so the range appended last is in
  front. \<open>matching_blocks.append(x)\<close> appends at the end.
\<close>

function gmb_loop ::
  "'a list \<Rightarrow> 'a list \<Rightarrow> 'a b2j \<Rightarrow> (nat \<times> nat \<times> nat \<times> nat) list \<Rightarrow> match list
     \<Rightarrow> match list" where
  "gmb_loop a b b2j [] matching_blocks = matching_blocks"
| "gmb_loop a b b2j ((alo, ahi, blo, bhi) # queue) matching_blocks =
     (case find_longest_match a b b2j alo ahi blo bhi of
        (i, j, k) \<Rightarrow>
          if k \<noteq> 0
          then gmb_loop a b b2j
                 ((if i + k < ahi \<and> j + k < bhi then [(i + k, ahi, j + k, bhi)] else [])
                  @ (if alo < i \<and> blo < j then [(alo, i, blo, j)] else [])
                  @ queue)
                 (matching_blocks @ [(i, j, k)])
          else gmb_loop a b b2j queue matching_blocks)"
  by pat_completeness auto

text \<open>The loop that collapses adjacent blocks; the state is \<open>((i1, j1, k1), non_adjacent)\<close>.\<close>

fun collapse_step :: "match \<Rightarrow> match \<times> match list \<Rightarrow> match \<times> match list" where
  "collapse_step (i2, j2, k2) ((i1, j1, k1), non_adjacent) =
     (if i1 + k1 = i2 \<and> j1 + k1 = j2
      then ((i1, j1, k1 + k2), non_adjacent)
      else ((i2, j2, k2),
            (if k1 \<noteq> 0 then non_adjacent @ [(i1, j1, k1)] else non_adjacent)))"

definition calculate_ratio :: "nat \<Rightarrow> nat \<Rightarrow> rat" where
  "calculate_ratio matches len =
     (if len \<noteq> 0 then 2 * of_nat matches / of_nat len else 1)"

section \<open>Matching blocks and ratio\<close>

text \<open>
  \<open>get_matching_blocks\<close>: run the work list from \<open>[(0, la, 0, lb)]\<close>, sort the
  blocks (tuples compare lexicographically), collapse adjacent ones and append the
  sentinel \<open>(la, lb, 0)\<close>.
\<close>

definition get_matching_blocks :: "'a list \<Rightarrow> 'a list \<Rightarrow> match list" where
  "get_matching_blocks a b =
     (let la = length a; lb = length b;
          matching_blocks = sort (gmb_loop a b (chain_b b) [(0, la, 0, lb)] []);
          st = fold collapse_step matching_blocks ((0, 0, 0), []);
          non_adjacent =
            (case st of ((i1, j1, k1), non_adjacent) \<Rightarrow>
               if k1 \<noteq> 0 then non_adjacent @ [(i1, j1, k1)] else non_adjacent)
      in non_adjacent @ [(la, lb, 0)])"

text \<open>\<open>ratio\<close>: \<open>sum(triple[-1] for triple in self.get_matching_blocks())\<close>.\<close>

definition ratio :: "'a list \<Rightarrow> 'a list \<Rightarrow> rat" where
  "ratio a b =
     (let matches = sum_list (map (\<lambda>triple. snd (snd triple)) (get_matching_blocks a b))
      in calculate_ratio matches (length a + length b))"

section \<open>Timestamps\<close>

text \<open>
  A \<open>datetime\<close> with the fields the exports read. The date is its day number
  (\<open>toordinal()\<close>); the model puts no upper bound on it, so the end of
  \<open>datetime\<close>'s range (year 9999) is outside the model. \<open>valid_datetime\<close> is
  the range of the fields that every Python \<open>datetime\<close> has.
\<close>

record datetime =
  day :: int
  hour :: nat
  minute :: nat
  second :: nat
  microsecond :: nat

definition valid_datetime :: "datetime \<Rightarrow> bool" where
  "valid_datetime t = (hour t < 24 \<and> minute t < 60 \<and> second t < 60 \<and> microsecond t < 1000000)"

text \<open>Seconds since midnight.\<close>

definition second_of_day :: "datetime \<Rightarrow> nat" where
  "second_of_day t = hour t * 3600 + minute t * 60 + second t"

text \<open>\<open>timestamp + timedelta(seconds=n)\<close>: the seconds carry into the day number.\<close>

definition add_seconds :: "datetime \<Rightarrow> nat \<Rightarrow> datetime" where
  "add_seconds t n =
     (let total = second_of_day t + n;
          rem = total mod 86400
      in \<lparr>day = day t + int (total div 86400),
          hour = rem div 3600,
          minute = (rem mod 3600) div 60,
          second = rem mod 60,
          microsecond = microsecond t\<rparr>)"

text \<open>Decimal numerals: \<open>f"{i}"\<close> of a non-negative integer.\<close>

definition digit_char :: "nat \<Rightarrow> char" where
  "digit_char d = char_of (48 + d)"

function str_nat :: "nat \<Rightarrow> string" where
  "str_nat n = (if n < 10 then [digit_char n] else str_nat (n div 10) @ [digit_char (n mod 10)])"
  by pat_completeness auto
termination
  by (relation "measure id") auto

declare str_nat.simps [simp del]

text \<open>The \<open>%H\<close>, \<open>%M\<close> and \<open>%S\<close> fields of \<open>strftime\<close>: two digits, zero padded.\<close>

definition pad2 :: "nat \<Rightarrow> string" where
  "pad2 n = (if n < 10 then CHR ''0'' # str_nat n else str_nat n)"

text \<open>\<open>timestamp.strftime("%H:%M:%S")\<close>\<close>

definition strftime_hms :: "datetime \<Rightarrow> string" where
  "strftime_hms t = pad2 (hour t) @ '':'' @ pad2 (minute t) @ '':'' @ pad2 (second t)"

section \<open>TextProcessor\<close>

text \<open>
  The similarity threshold and the ratio are rational numbers; the default threshold
  \<open>0.8\<close> is \<open>4/5\<close>. \<open>datetime.now()\<close> is the argument \<open>now\<close> of \<open>add_text\<close>.
  Every method returns the processor after the call next to its result.
\<close>

record text_processor =
  similarity_threshold :: rat
  entries :: "(datetime \<times> string) list"
  last_text :: string

definition init :: "rat \<Rightarrow> text_processor" where
  "init threshold = \<lparr>similarity_threshold = threshold, entries = [], last_text = []\<rparr>"

definition default_threshold :: rat where
  "default_threshold = 4 / 5"

definition is_duplicate :: "text_processor \<Rightarrow> string \<Rightarrow> bool" where
  "is_duplicate s text =
     (if last_text s = [] then False
      else (let similarity = ratio (py_lower (last_text s)) (py_lower text)
            in similarity \<ge> similarity_threshold s))"

definition add_text :: "datetime \<Rightarrow> string \<Rightarrow> text_processor \<Rightarrow> bool \<times> text_processor" where
  "add_text now text0 s =
     (let text = py_strip text0
      in if text = [] then (False, s)
         else if is_duplicate s text then (False, s)
         else (True, s\<lparr>entries := entries s @ [(now, text)], last_text := text\<rparr>))"

definition get_similarity :: "string \<Rightarrow> string \<Rightarrow> rat" where
  "get_similarity text1 text2 = ratio (py_lower text1) (py_lower text2)"


definition get_latest_text :: "text_processor \<Rightarrow> string option" where
  "get_latest_text s = (if last_text s \<noteq> [] then Some (last_text s) else None)"

definition clear :: "text_processor \<Rightarrow> text_processor" where
  "clear s = s\<lparr>entries := [], last_text := []\<rparr>"

definition len :: "text_processor \<Rightarrow> nat" where
  "len s = length (entries s)"

subsection \<open>Export\<close>

text \<open>
  The file system is outside the program. \<open>io_env\<close> says which of the calls fail:
  \<open>mkdir\<close>, \<open>open\<close>, the \<open>write\<close> call with a given index (counted from 0 in one
  export), and closing the file at the end of the \<open>with\<close> block. A failing call
  raises \<open>OSError\<close>, which no method catches. An export returns the error, or the text
  it has written to the file.
\<close>

datatype py_error = OSError | ScreenShotError | RuntimeError

record io_env =
  mkdir_fails :: bool
  open_fails :: bool
  write_fails_at :: "nat option"
  close_fails :: bool

record out_file =
  content :: string
  n_writes :: nat

definition f_write :: "io_env \<Rightarrow> out_file \<Rightarrow> string \<Rightarrow> py_error + out_file" where
  "f_write env f data =
     (if write_fails_at env = Some (n_writes f) then Inl OSError
      else Inr \<lparr>content = content f @ data, n_writes = n_writes f + 1\<rparr>)"

text \<open>\<open>for timestamp, text in self.entries: f.write(f"[{time_str}] {text}\n")\<close>\<close>

fun txt_loop :: "io_env \<Rightarrow> (datetime \<times> string) list \<Rightarrow> out_file \<Rightarrow> py_error + out_file" where
  "txt_loop env [] f = Inr f"
| "txt_loop env ((timestamp, text) # rest) f =
     (let time_str = strftime_hms timestamp
      in case f_write env f (''['' @ time_str @ ''] '' @ text @ [CHR 0x0A]) of
           Inl e \<Rightarrow> Inl e
         | Inr f' \<Rightarrow> txt_loop env rest f')"

text \<open>
  \<open>for i, (timestamp, text) in enumerate(self.entries, 1)\<close>: the three writes of one
  cue. The first argument is the index \<open>i\<close> of the head of the list.
\<close>

fun srt_loop ::
  "io_env \<Rightarrow> nat \<Rightarrow> (datetime \<times> string) list \<Rightarrow> out_file \<Rightarrow> py_error + out_file" where
  "srt_loop env i [] f = Inr f"
| "srt_loop env i ((timestamp, text) # rest) f =
     (case f_write env f (str_nat i @ [CHR 0x0A]) of
        Inl e \<Rightarrow> Inl e
      | Inr f1 \<Rightarrow>
         (let start = timestamp;
              end_ts = add_seconds timestamp 2;
              start_str = strftime_hms start @ '',000'';
              end_str = strftime_hms end_ts @ '',000''
          in case f_write env f1 (start_str @ '' --> '' @ end_str @ [CHR 0x0A]) of
               Inl e \<Rightarrow> Inl e
             | Inr f2 \<Rightarrow>
                (case f_write env f2 (text @ [CHR 0x0A, CHR 0x0A]) of
                   Inl e \<Rightarrow> Inl e
                 | Inr f3 \<Rightarrow> srt_loop env (i + 1) rest f3)))"

text \<open>
  \<open>path.parent.mkdir(...)\<close>, then \<open>with open(path, "w", encoding="utf-8") as f\<close>
  around the loop.
\<close>

definition with_open ::
  "io_env \<Rightarrow> string \<Rightarrow> (out_file \<Rightarrow> py_error + out_file) \<Rightarrow> py_error + string" where
  "with_open env filepath body =
     (if mkdir_fails env then Inl OSError
      else if open_fails env then Inl OSError
      else (case body \<lparr>content = [], n_writes = 0\<rparr> of
              Inl e \<Rightarrow> Inl e
            | Inr f \<Rightarrow> if close_fails env then Inl OSError else Inr (content f)))"

definition save_to_txt ::
  "io_env \<Rightarrow> string \<Rightarrow> text_processor \<Rightarrow> (py_error + string) \<times> text_processor" where
  "save_to_txt env filepath s = (with_open env filepath (txt_loop env (entries s)), s)"

definition save_to_srt ::
  "io_env \<Rightarrow> string \<Rightarrow> text_processor \<Rightarrow> (py_error + string) \<times> text_processor" where
  "save_to_srt env filepath s = (with_open env filepath (srt_loop env 1 (entries s)), s)"

definition save ::
  "io_env \<Rightarrow> string \<Rightarrow> string \<Rightarrow> text_processor \<Rightarrow> (py_error + string) \<times> text_processor" where
  "save env filepath format s =
     (if py_lower format = ''srt'' then save_to_srt env filepath s
      else save_to_txt env filepath s)"

section \<open>ScreenCapture and the capture tick\<close>

text \<open>
  \<open>_region\<close> is \<open>None\<close> or the 4-tuple \<open>set_region\<close> stores; a 4-tuple is never
  falsy, so \<open>not self._region\<close> holds exactly for \<open>None\<close>. The screen grab and the OCR
  engine are outside the program: \<open>grab\<close> and \<open>extract_text\<close> are parameters, and a tick
  returns the list of the calls it has made to them.
\<close>

type_synonym rect = "int \<times> int \<times> int \<times> int"

record screen_capture =
  region :: "rect option"

definition set_region :: "int \<Rightarrow> int \<Rightarrow> int \<Rightarrow> int \<Rightarrow> screen_capture \<Rightarrow> screen_capture" where
  "set_region x y width height sc = sc\<lparr>region := Some (x, y, width, height)\<rparr>"

definition capture :: "(rect \<Rightarrow> py_error + 'img) \<Rightarrow> screen_capture \<Rightarrow> py_error + 'img option" where
  "capture grab sc =
     (case region sc of
        None \<Rightarrow> Inr None
      | Some monitor \<Rightarrow>
          (case grab monitor of Inl e \<Rightarrow> Inl e | Inr img \<Rightarrow> Inr (Some img)))"

datatype 'img call = Grab rect | Ocr 'img

record main_window =
  mw_capture :: screen_capture
  processor :: text_processor
  result_text :: "string list"
  stats_label :: string

definition update_stats :: "main_window \<Rightarrow> main_window" where
  "update_stats mw =
     mw\<lparr>stats_label := str_nat (len (processor mw)) @ '' subtitle(s) captured''\<rparr>"

definition on_capture_tick ::
  "(rect \<Rightarrow> py_error + 'img) \<Rightarrow> ('img \<Rightarrow> py_error + string) \<Rightarrow> datetime \<Rightarrow> main_window
     \<Rightarrow> (py_error + unit) \<times> 'img call list \<times> main_window" where
  "on_capture_tick grab extract_text now mw =
     (let grabs = (case region (mw_capture mw) of None \<Rightarrow> [] | Some r \<Rightarrow> [Grab r])
      in case capture grab (mw_capture mw) of
           Inl e \<Rightarrow> (Inl e, grabs, mw)
         | Inr None \<Rightarrow> (Inr (), grabs, mw)
         | Inr (Some img) \<Rightarrow>
             (case extract_text img of
                Inl e \<Rightarrow> (Inl e, grabs @ [Ocr img], mw)
              | Inr text \<Rightarrow>
                  (case add_text now text (processor mw) of
                     (added, p) \<Rightarrow>
                       if added
                       then (Inr (), grabs @ [Ocr img],
                             update_stats (mw\<lparr>processor := p,
                                               result_text := result_text mw @ [text]\<rparr>))
                       else (Inr (), grabs @ [Ocr img], mw\<lparr>processor := p\<rparr>))))"

section \<open>Export\<close>

text \<open>
  The text of an export, as the specification words it: a line \<open>[HH:MM:SS] text\<close> per
  entry, or a numbered cue with a two-second window per entry.
\<close>

definition txt_line :: "datetime \<times> string \<Rightarrow> string" where
  "txt_line e = ''['' @ strftime_hms (fst e) @ ''] '' @ snd e @ ''\<newline>''"

definition srt_block :: "nat \<times> datetime \<times> string \<Rightarrow> string" where
  "srt_block c =
     (case c of (i, timestamp, text) \<Rightarrow>
        str_nat i @ ''\<newline>''
        @ strftime_hms timestamp @ '',000 --> '' @ strftime_hms (add_seconds timestamp 2)
        @ '',000\<newline>''
        @ text @ ''\<newline>\<newline>'')"

definition no_io_failure :: "io_env \<Rightarrow> bool" where
  "no_io_failure env =
     (\<not> mkdir_fails env \<and> \<not> open_fails env \<and> write_fails_at env = None \<and> \<not> close_fails env)"

text \<open>An export that makes \<open>n\<close> write calls fails when one of its calls fails.\<close>

definition export_fails :: "io_env \<Rightarrow> nat \<Rightarrow> bool" where
  "export_fails env n =
     (mkdir_fails env \<or> open_fails env
      \<or> (case write_fails_at env of None \<Rightarrow> False | Some k \<Rightarrow> k < n)
      \<or> close_fails env)"

definition n_write_calls :: "string \<Rightarrow> text_processor \<Rightarrow> nat" where
  "n_write_calls format s = (if py_lower format = ''srt'' then 3 * len s else len s)"

subsection \<open>Reading a time back from its text\<close>

definition digit_val :: "char \<Rightarrow> nat" where
  "digit_val c = of_char c - 48"

text \<open>The seconds since midnight that a text \<open>HH:MM:SS\<close> denotes.\<close>

definition hms_seconds :: "string \<Rightarrow> nat" where
  "hms_seconds s =
     (case s of
        [h1, h2, c1, m1, m2, c2, s1, s2] \<Rightarrow>
          (digit_val h1 * 10 + digit_val h2) * 3600
          + (digit_val m1 * 10 + digit_val m2) * 60
          + (digit_val s1 * 10 + digit_val s2)
      | _ \<Rightarrow> 0)"


subsection \<open>Lines of a text\<close>

text \<open>The lines of a text file: the pieces that end with a line feed, and a last piece without one.\<close>

fun lines_acc :: "string \<Rightarrow> string \<Rightarrow> string list" where
  "lines_acc cur [] = (if cur = [] then [] else [cur])"
| "lines_acc cur (c # cs) =
     (if c = CHR 0x0A then cur # lines_acc [] cs else lines_acc (cur @ [c]) cs)"

definition split_lines :: "string \<Rightarrow> string list" where
  "split_lines s = lines_acc [] s"

section \<open>Sample values of the examples\<close>

abbreviation (input) noon :: datetime where
  "noon \<equiv> \<lparr>day = 738000, hour = 12, minute = 0, second = 0, microsecond = 0\<rparr>"

abbreviation (input) before_midnight :: datetime where
  "before_midnight \<equiv> \<lparr>day = 738000, hour = 23, minute = 59, second = 59, microsecond = 250000\<rparr>"

abbreviation (input) io_ok :: io_env where
  "io_ok \<equiv> \<lparr>mkdir_fails = False, open_fails = False, write_fails_at = None, close_fails = False\<rparr>"

abbreviation (input) io_second_write_fails :: io_env where
  "io_second_write_fails \<equiv>
     \<lparr>mkdir_fails = False, open_fails = False, write_fails_at = Some 1, close_fails = False\<rparr>"

abbreviation (input) two_entries :: text_processor where
  "two_entries \<equiv>
     \<lparr>similarity_threshold = 4 / 5,
      entries = [(noon, ''A''), (before_midnight, ''B'')],
      last_text = ''B''\<rparr>"

section \<open>Predicates of the bounds proof\<close>

definition in_box :: "nat \<Rightarrow> nat \<Rightarrow> nat \<Rightarrow> nat \<Rightarrow> match \<Rightarrow> bool" where
  "in_box alo ahi blo bhi m =
     (case m of (i, j, k) \<Rightarrow>
        alo \<le> i \<and> blo \<le> j \<and> (k = 0 \<longrightarrow> i = alo \<and> j = blo)
        \<and> (0 < k \<longrightarrow> i + k \<le> ahi \<and> j + k \<le> bhi))"

definition row_ok :: "nat \<Rightarrow> nat \<Rightarrow> nat \<Rightarrow> nat \<Rightarrow> (nat \<rightharpoonup> nat) \<Rightarrow> bool" where
  "row_ok alo blo bhi n j2len =
     (\<forall>j v. j2len j = Some v \<longrightarrow> blo \<le> j \<and> j < bhi \<and> v \<le> n - alo \<and> v \<le> j + 1 - blo)"

section \<open>Sequences of calls\<close>





definition stripped :: "string \<Rightarrow> bool" where
  "stripped t = (t \<noteq> [] \<and> \<not> py_isspace (hd t) \<and> \<not> py_isspace (last t))"


section \<open>Bounds of the longest match, and termination of the work list\<close>

lemma j2lenget_bounds:
  assumes "row_ok alo blo bhi i j2len" "alo \<le> i" "blo \<le> j"
  shows "j2lenget j2len (int j - 1) + 1 \<le> i + 1 - alo"
    and "j2lenget j2len (int j - 1) + 1 \<le> j + 1 - blo"
proof -
  show "j2lenget j2len (int j - 1) + 1 \<le> i + 1 - alo"
  proof (cases "j = 0")
    case True
    then show ?thesis using assms(2) by (simp add: j2lenget_def)
  next
    case False
    then have key: "nat (int j - 1) = j - 1" "\<not> int j - 1 < 0" by auto
    show ?thesis
    proof (cases "j2len (j - 1)")
      case None
      then show ?thesis using assms(2) key by (simp add: j2lenget_def)
    next
      case (Some v)
      then have "v \<le> i - alo" using assms(1) by (simp add: row_ok_def)
      then show ?thesis using assms(2) key Some by (simp add: j2lenget_def)
    qed
  qed
  show "j2lenget j2len (int j - 1) + 1 \<le> j + 1 - blo"
  proof (cases "j = 0")
    case True
    then show ?thesis using assms(3) by (simp add: j2lenget_def)
  next
    case False
    then have key: "nat (int j - 1) = j - 1" "\<not> int j - 1 < 0" by auto
    show ?thesis
    proof (cases "j2len (j - 1)")
      case None
      then show ?thesis using assms(3) key by (simp add: j2lenget_def)
    next
      case (Some v)
      then have "blo \<le> j - 1" "v \<le> (j - 1) + 1 - blo"
        using assms(1) by (simp_all add: row_ok_def)
      then show ?thesis using False key Some by (simp add: j2lenget_def)
    qed
  qed
qed

lemma flm_inner_bounds:
  assumes "alo \<le> i" "i < ahi"
    and "in_box alo ahi blo bhi best"
    and "row_ok alo blo bhi i j2len"
    and "row_ok alo blo bhi (i + 1) newj2len"
  shows "in_box alo ahi blo bhi (snd (flm_inner i blo bhi j2len js newj2len best))
         \<and> row_ok alo blo bhi (i + 1) (fst (flm_inner i blo bhi j2len js newj2len best))"
  using assms
proof (induction js arbitrary: newj2len best)
  case Nil
  then show ?case by simp
next
  case (Cons j js)
  show ?case
  proof (cases "j < blo")
    case True
    with Cons show ?thesis by simp
  next
    case lo: False
    show ?thesis
    proof (cases "bhi \<le> j")
      case True
      with lo Cons.prems show ?thesis by simp
    next
      case hi: False
      define k where "k = j2lenget j2len (int j - 1) + 1"
      have k1: "k \<le> i + 1 - alo" and k2: "k \<le> j + 1 - blo"
        using j2lenget_bounds[OF Cons.prems(4) Cons.prems(1), of j] lo
        by (simp_all add: k_def)
      have kpos: "0 < k" by (simp add: k_def)
      have row': "row_ok alo blo bhi (i + 1) (newj2len(j \<mapsto> k))"
        using Cons.prems(5) lo hi k1 k2 unfolding row_ok_def by auto
      have box': "in_box alo ahi blo bhi (i + 1 - k, j + 1 - k, k)"
        using k1 k2 kpos lo hi Cons.prems(1,2) unfolding in_box_def by auto
      have step: "flm_inner i blo bhi j2len (j # js) newj2len best =
          (if k > snd (snd best)
           then flm_inner i blo bhi j2len js (newj2len(j \<mapsto> k)) (i + 1 - k, j + 1 - k, k)
           else flm_inner i blo bhi j2len js (newj2len(j \<mapsto> k)) best)"
        using lo hi by (simp add: k_def Let_def)
      show ?thesis
      proof (cases "k > snd (snd best)")
        case True
        then show ?thesis
          using Cons.IH[OF Cons.prems(1,2) box' Cons.prems(4) row']
          by (simp only: step if_True)
      next
        case False
        then show ?thesis
          using Cons.IH[OF Cons.prems(1,2,3,4) row']
          by (simp only: step if_False)
      qed
    qed
  qed
qed

lemma flm_row_bounds:
  assumes "alo \<le> i" "i < ahi"
    and "in_box alo ahi blo bhi (snd st)"
    and "row_ok alo blo bhi i (fst st)"
  shows "in_box alo ahi blo bhi (snd (flm_row a b2j blo bhi i st))
         \<and> row_ok alo blo bhi (i + 1) (fst (flm_row a b2j blo bhi i st))"
proof -
  have "row_ok alo blo bhi (i + 1) Map.empty" by (simp add: row_ok_def)
  from flm_inner_bounds[OF assms(1,2,3,4) this] show ?thesis
    unfolding flm_row_def .
qed

lemma flm_fold_bounds:
  assumes "alo \<le> i"
    and "in_box alo ahi blo bhi (snd st)"
    and "row_ok alo blo bhi i (fst st)"
  shows "in_box alo ahi blo bhi (snd (fold (flm_row a b2j blo bhi) [i..<ahi] st))"
  using assms
proof (induction "ahi - i" arbitrary: i st)
  case 0
  then show ?case by simp
next
  case (Suc n)
  then have lt: "i < ahi" by simp
  have n: "n = ahi - (i + 1)" using Suc.hyps(2) by simp
  have le: "alo \<le> i + 1" using Suc.prems(1) by simp
  note r = flm_row_bounds[OF Suc.prems(1) lt Suc.prems(2,3), of a b2j]
  have "in_box alo ahi blo bhi
          (snd (fold (flm_row a b2j blo bhi) [i + 1..<ahi] (flm_row a b2j blo bhi i st)))"
    using Suc.hyps(1)[OF n le] r by blast
  then show ?case using lt by (simp add: upt_conv_Cons)
qed

declare extend_back.simps [simp del] extend_fwd.simps [simp del]

lemma extend_back_bounds:
  "in_box alo ahi blo bhi m \<Longrightarrow> in_box alo ahi blo bhi (extend_back a b alo blo want m)"
proof (induction a b alo blo want m rule: extend_back.induct)
  case (1 a b alo blo want besti bestj bestsize)
  show ?case
  proof (cases "besti > alo \<and> bestj > blo \<and> isbjunk (b ! (bestj - 1)) = want
         \<and> a ! (besti - 1) = b ! (bestj - 1)")
    case True
    have "in_box alo ahi blo bhi (besti - 1, bestj - 1, bestsize + 1)"
      using True "1.prems" unfolding in_box_def by auto
    moreover have "extend_back a b alo blo want (besti, bestj, bestsize)
        = extend_back a b alo blo want (besti - 1, bestj - 1, bestsize + 1)"
      using True by (subst extend_back.simps) auto
    ultimately show ?thesis using "1.IH"[OF True] by simp
  next
    case False
    have "extend_back a b alo blo want (besti, bestj, bestsize) = (besti, bestj, bestsize)"
      using False by (subst extend_back.simps) auto
    then show ?thesis using "1.prems" by simp
  qed
qed

lemma extend_fwd_bounds:
  "in_box alo ahi blo bhi m \<Longrightarrow> in_box alo ahi blo bhi (extend_fwd a b ahi bhi want m)"
proof (induction a b ahi bhi want m rule: extend_fwd.induct)
  case (1 a b ahi bhi want besti bestj bestsize)
  show ?case
  proof (cases "besti + bestsize < ahi \<and> bestj + bestsize < bhi
         \<and> isbjunk (b ! (bestj + bestsize)) = want
         \<and> a ! (besti + bestsize) = b ! (bestj + bestsize)")
    case True
    have "in_box alo ahi blo bhi (besti, bestj, bestsize + 1)"
      using True "1.prems" unfolding in_box_def by auto
    moreover have "extend_fwd a b ahi bhi want (besti, bestj, bestsize)
        = extend_fwd a b ahi bhi want (besti, bestj, bestsize + 1)"
      using True by (subst extend_fwd.simps) auto
    ultimately show ?thesis using "1.IH"[OF True] by simp
  next
    case False
    have "extend_fwd a b ahi bhi want (besti, bestj, bestsize) = (besti, bestj, bestsize)"
      using False by (subst extend_fwd.simps) auto
    then show ?thesis using "1.prems" by simp
  qed
qed

lemma find_longest_match_in_box:
  "in_box alo ahi blo bhi (find_longest_match a b b2j alo ahi blo bhi)"
proof -
  have "in_box alo ahi blo bhi (snd (Map.empty :: nat \<rightharpoonup> nat, (alo, blo, 0::nat)))"
    by (simp add: in_box_def)
  moreover have "row_ok alo blo bhi alo (fst (Map.empty :: nat \<rightharpoonup> nat, (alo, blo, 0::nat)))"
    by (simp add: row_ok_def)
  ultimately have "in_box alo ahi blo bhi
      (snd (fold (flm_row a b2j blo bhi) [alo..<ahi] (Map.empty, (alo, blo, 0))))"
    using flm_fold_bounds[of alo alo ahi blo bhi] by blast
  then show ?thesis
    unfolding find_longest_match_def Let_def
    by (intro extend_fwd_bounds extend_back_bounds)
qed

lemma find_longest_match_bounds:
  assumes "find_longest_match a b b2j alo ahi blo bhi = (i, j, k)"
  shows "alo \<le> i" "blo \<le> j" "0 < k \<Longrightarrow> i + k \<le> ahi" "0 < k \<Longrightarrow> j + k \<le> bhi"
  using find_longest_match_in_box[of alo ahi blo bhi a b b2j] assms
  by (simp_all add: in_box_def)

termination gmb_loop
  apply (relation "measure (\<lambda>(a, b, b2j, queue, mbs).
          sum_list (map (\<lambda>(alo, ahi, blo, bhi). 2 * (ahi - alo) + 1) queue))")
    apply simp
   apply clarsimp
  subgoal premises p for a b b2j alo ahi blo bhi i j k
    using find_longest_match_bounds[OF p(1)[symmetric]] p(2) by auto
  apply simp
  done

declare gmb_loop.simps [simp del]

section \<open>Trimming\<close>

lemma py_strip_blank: "(\<forall>c\<in>set t. py_isspace c) \<Longrightarrow> py_strip t = []"
proof -
  assume "\<forall>c\<in>set t. py_isspace c"
  then have d: "dropWhile py_isspace t = []" by (simp add: dropWhile_eq_Nil_conv)
  show ?thesis unfolding py_strip_def py_rstrip_def py_lstrip_def d by simp
qed

lemma py_strip_empty_iff: "py_strip t = [] \<longleftrightarrow> (\<forall>c\<in>set t. py_isspace c)"
proof
  assume e: "py_strip t = []"
  then have "dropWhile py_isspace (rev (dropWhile py_isspace t)) = []"
    by (simp add: py_strip_def py_rstrip_def py_lstrip_def)
  then have a: "\<forall>c\<in>set (dropWhile py_isspace t). py_isspace c"
    by (simp add: dropWhile_eq_Nil_conv)
  have "dropWhile py_isspace t = []"
  proof (cases "dropWhile py_isspace t")
    case Nil
    then show ?thesis .
  next
    case (Cons x xs)
    then have "\<not> py_isspace x" using hd_dropWhile[of py_isspace t] by auto
    moreover have "py_isspace x" using a Cons by simp
    ultimately show ?thesis by simp
  qed
  then show "\<forall>c\<in>set t. py_isspace c" by (simp add: dropWhile_eq_Nil_conv)
qed (rule py_strip_blank)

section \<open>Evaluations used by the examples\<close>

lemma ev_strip_new: "py_strip ''New text.'' = ''New text.''"
  by code_simp

lemma ev_sim_new: "get_similarity ''Hello, world!'' ''New text.'' = 2 / 11"
  by code_simp

lemma ev_strip_case: "py_strip '' Hello, World! '' = ''Hello, World!''"
  by code_simp

lemma ev_sim_case: "get_similarity ''Hello, world!'' ''Hello, World!'' = 1"
  by code_simp

section \<open>The export loops\<close>

lemma f_write_ok:
  "write_fails_at env \<noteq> Some (n_writes f) \<Longrightarrow>
     f_write env f d = Inr \<lparr>content = content f @ d, n_writes = n_writes f + 1\<rparr>"
  by (simp add: f_write_def)

lemma f_write_fail: "write_fails_at env = Some (n_writes f) \<Longrightarrow> f_write env f d = Inl OSError"
  by (simp add: f_write_def)

lemma txt_loop_result:
  "txt_loop env es f =
     (if (\<exists>k. write_fails_at env = Some k \<and> n_writes f \<le> k \<and> k < n_writes f + length es)
      then Inl OSError
      else Inr \<lparr>content = content f @ concat (map txt_line es),
                n_writes = n_writes f + length es\<rparr>)"
proof (induction es arbitrary: f)
  case Nil
  then show ?case by auto
next
  case (Cons e es)
  obtain timestamp tx where e: "e = (timestamp, tx)" by (cases e)
  show ?case
  proof (cases "write_fails_at env = Some (n_writes f)")
    case True
    then show ?thesis by (auto simp: e f_write_fail)
  next
    case False
    let ?f' = "\<lparr>content = content f @ txt_line e, n_writes = n_writes f + 1\<rparr>"
    have w: "f_write env f (''['' @ strftime_hms timestamp @ ''] '' @ tx @ [CHR 0x0A]) = Inr ?f'"
      using f_write_ok[OF False] by (simp add: e txt_line_def)
    have step: "txt_loop env (e # es) f = txt_loop env es ?f'"
      by (simp add: e w del: append.simps)
    have *: "(\<exists>k. write_fails_at env = Some k \<and> n_writes ?f' \<le> k \<and> k < n_writes ?f' + length es)
        \<longleftrightarrow> (\<exists>k. write_fails_at env = Some k \<and> n_writes f \<le> k
                \<and> k < n_writes f + length (e # es))"
    proof (cases "write_fails_at env")
      case None
      then show ?thesis by simp
    next
      case (Some k)
      then have "k \<noteq> n_writes f" using False by simp
      then show ?thesis using Some by simp arith
    qed
    show ?thesis
      unfolding step Cons.IH * by auto
  qed
qed

lemma srt_loop_result:
  "srt_loop env i es f =
     (if (\<exists>k. write_fails_at env = Some k \<and> n_writes f \<le> k \<and> k < n_writes f + 3 * length es)
      then Inl OSError
      else Inr \<lparr>content = content f @ concat (map srt_block (enumerate i es)),
                n_writes = n_writes f + 3 * length es\<rparr>)"
proof (induction es arbitrary: f i)
  case Nil
  then show ?case by auto
next
  case (Cons e es)
  obtain timestamp tx where e: "e = (timestamp, tx)" by (cases e)
  let ?d1 = "str_nat i @ [CHR 0x0A]"
  let ?d2 = "(strftime_hms timestamp @ '',000'') @ '' --> ''
             @ (strftime_hms (add_seconds timestamp 2) @ '',000'') @ [CHR 0x0A]"
  let ?d3 = "tx @ [CHR 0x0A, CHR 0x0A]"
  let ?f1 = "\<lparr>content = content f @ ?d1, n_writes = n_writes f + 1\<rparr>"
  let ?f2 = "\<lparr>content = content ?f1 @ ?d2, n_writes = n_writes ?f1 + 1\<rparr>"
  let ?f3 = "\<lparr>content = content ?f2 @ ?d3, n_writes = n_writes ?f2 + 1\<rparr>"
  have unfold: "srt_loop env i (e # es) f =
      (case f_write env f ?d1 of Inl e \<Rightarrow> Inl e
       | Inr f1 \<Rightarrow> (case f_write env f1 ?d2 of Inl e \<Rightarrow> Inl e
           | Inr f2 \<Rightarrow> (case f_write env f2 ?d3 of Inl e \<Rightarrow> Inl e
               | Inr f3 \<Rightarrow> srt_loop env (i + 1) es f3)))"
    by (simp add: e Let_def split: sum.splits del: append.simps)
  consider (a) "write_fails_at env = Some (n_writes f)"
    | (b) "write_fails_at env = Some (n_writes f + 1)"
    | (c) "write_fails_at env = Some (n_writes f + 2)"
    | (d) "write_fails_at env \<noteq> Some (n_writes f)" "write_fails_at env \<noteq> Some (n_writes f + 1)"
          "write_fails_at env \<noteq> Some (n_writes f + 2)"
    by blast
  then show ?case
  proof cases
    case a
    then have "f_write env f ?d1 = Inl OSError" by (rule f_write_fail)
    then show ?thesis unfolding unfold using a by auto
  next
    case b
    then have 1: "f_write env f ?d1 = Inr ?f1" by (intro f_write_ok) simp
    have 2: "f_write env ?f1 ?d2 = Inl OSError" using b by (intro f_write_fail) simp
    show ?thesis unfolding unfold 1 using 2 b by auto
  next
    case c
    then have 1: "f_write env f ?d1 = Inr ?f1" by (intro f_write_ok) simp
    have 2: "f_write env ?f1 ?d2 = Inr ?f2" using c by (intro f_write_ok) simp
    have 3: "f_write env ?f2 ?d3 = Inl OSError" using c by (intro f_write_fail) simp
    show ?thesis unfolding unfold 1 using 2 3 c by auto
  next
    case d
    then have 1: "f_write env f ?d1 = Inr ?f1" by (intro f_write_ok) simp
    have 2: "f_write env ?f1 ?d2 = Inr ?f2" using d by (intro f_write_ok) simp
    have 3: "f_write env ?f2 ?d3 = Inr ?f3" using d by (intro f_write_ok) simp
    have step: "srt_loop env i (e # es) f = srt_loop env (i + 1) es ?f3"
      unfolding unfold 1 using 2 3 by simp
    have blk: "content ?f3 = content f @ srt_block (i, e)"
      by (simp add: srt_block_def e)
    have *: "(\<exists>k. write_fails_at env = Some k \<and> n_writes ?f3 \<le> k \<and> k < n_writes ?f3 + 3 * length es)
        \<longleftrightarrow> (\<exists>k. write_fails_at env = Some k \<and> n_writes f \<le> k
                \<and> k < n_writes f + 3 * length (e # es))"
    proof (cases "write_fails_at env")
      case None
      then show ?thesis by simp
    next
      case (Some k)
      then have "k \<noteq> n_writes f" "k \<noteq> n_writes f + 1" "k \<noteq> n_writes f + 2"
        using d by simp_all
      then show ?thesis using Some by simp arith
    qed
    show ?thesis
      unfolding step Cons.IH * using blk
      by (auto simp: enumerate_simps simp del: append.simps)
  qed
qed


lemma with_open_txt:
  "with_open env filepath (txt_loop env es) =
     (if export_fails env (length es) then Inl OSError else Inr (concat (map txt_line es)))"
  by (cases "write_fails_at env")
     (auto simp: with_open_def txt_loop_result export_fails_def)

lemma with_open_srt:
  "with_open env filepath (srt_loop env i es) =
     (if export_fails env (3 * length es) then Inl OSError
      else Inr (concat (map srt_block (enumerate i es))))"
  by (cases "write_fails_at env")
     (auto simp: with_open_def srt_loop_result export_fails_def)

lemma no_io_failure_not_fails: "no_io_failure env \<Longrightarrow> \<not> export_fails env n"
  by (simp add: no_io_failure_def export_fails_def)

section \<open>Times and their text\<close>

lemma digit_val_digit_char: "d < 10 \<Longrightarrow> digit_val (digit_char d) = d"
  by (simp add: digit_val_def digit_char_def)

lemma str_nat_small: "n < 10 \<Longrightarrow> str_nat n = [digit_char n]"
  by (subst str_nat.simps) simp

lemma str_nat_two:
  assumes "10 \<le> n" "n < 100"
  shows "str_nat n = [digit_char (n div 10), digit_char (n mod 10)]"
proof -
  have "n div 10 < 10" using assms by simp
  then have "str_nat (n div 10) = [digit_char (n div 10)]" by (rule str_nat_small)
  then show ?thesis using assms by (subst str_nat.simps) simp
qed

lemma digit_char_0: "digit_char 0 = CHR ''0''"
  by code_simp

lemma pad2_digits: "n < 100 \<Longrightarrow> pad2 n = [digit_char (n div 10), digit_char (n mod 10)]"
  by (cases "n < 10") (simp_all add: pad2_def str_nat_small str_nat_two digit_char_0)

lemma hms_seconds_digits:
  "hms_seconds [digit_char a1, digit_char a2, c1, digit_char b1, digit_char b2, c2,
                digit_char e1, digit_char e2]
     = (digit_val (digit_char a1) * 10 + digit_val (digit_char a2)) * 3600
       + (digit_val (digit_char b1) * 10 + digit_val (digit_char b2)) * 60
       + (digit_val (digit_char e1) * 10 + digit_val (digit_char e2))"
  by (simp add: hms_seconds_def)

lemma two_digits_value:
  "n < 100 \<Longrightarrow> digit_val (digit_char (n div 10)) * 10 + digit_val (digit_char (n mod 10)) = n"
  by (simp add: digit_val_digit_char)

lemma hms_seconds_strftime:
  assumes "valid_datetime t"
  shows "hms_seconds (strftime_hms t) = second_of_day t"
proof -
  have h: "hour t < 100" "minute t < 100" "second t < 100"
    using assms by (simp_all add: valid_datetime_def)
  have "strftime_hms t =
      [digit_char (hour t div 10), digit_char (hour t mod 10), CHR '':'',
       digit_char (minute t div 10), digit_char (minute t mod 10), CHR '':'',
       digit_char (second t div 10), digit_char (second t mod 10)]"
    by (simp add: strftime_hms_def pad2_digits[OF h(1)] pad2_digits[OF h(2)]
        pad2_digits[OF h(3)])
  then show ?thesis
    by (simp only: hms_seconds_digits two_digits_value[OF h(1)] two_digits_value[OF h(2)]
        two_digits_value[OF h(3)] second_of_day_def)
qed

lemma second_of_day_less: "valid_datetime t \<Longrightarrow> second_of_day t < 86400"
  by (simp add: valid_datetime_def second_of_day_def)




section \<open>Lines\<close>

lemma lines_acc_line:
  "CHR 0x0A \<notin> set l \<Longrightarrow> lines_acc cur (l @ CHR 0x0A # rest) = (cur @ l) # lines_acc [] rest"
  by (induction l arbitrary: cur) auto

lemma lines_acc_concat:
  "(\<forall>l\<in>set ls. CHR 0x0A \<notin> set l) \<Longrightarrow>
     lines_acc [] (concat (map (\<lambda>l. l @ [CHR 0x0A]) ls)) = ls"
proof (induction ls)
  case Nil
  then show ?case by simp
next
  case (Cons l ls)
  then have "CHR 0x0A \<notin> set l" by simp
  from lines_acc_line[OF this, of "[]"] Cons show ?case by simp
qed

lemma digit_char_not_newline: "d < 10 \<Longrightarrow> digit_char d \<noteq> CHR 0x0A"
proof
  assume d: "d < 10" and "digit_char d = CHR 0x0A"
  then have "(of_char (digit_char d) :: nat) = of_char (CHR 0x0A)" by simp
  then show False using d by (simp add: digit_char_def)
qed

lemma str_nat_digits: "c \<in> set (str_nat n) \<Longrightarrow> \<exists>d<10. c = digit_char d"
proof (induction n rule: str_nat.induct)
  case (1 n)
  show ?case
  proof (cases "n < 10")
    case True
    then show ?thesis using "1.prems" by (auto simp: str_nat_small)
  next
    case False
    then have "str_nat n = str_nat (n div 10) @ [digit_char (n mod 10)]"
      by (subst str_nat.simps) simp
    then consider "c \<in> set (str_nat (n div 10))" | "c = digit_char (n mod 10)"
      using "1.prems" by auto
    then show ?thesis
    proof cases
      case 1
      then show ?thesis using "1.IH"[OF False] by simp
    next
      case 2
      then show ?thesis by (intro exI[of _ "n mod 10"]) simp
    qed
  qed
qed

lemma pad2_no_newline: "CHR 0x0A \<notin> set (pad2 n)"
proof
  assume "CHR 0x0A \<in> set (pad2 n)"
  then have "CHR 0x0A \<in> set (str_nat n)"
    by (auto simp: pad2_def split: if_splits)
  then obtain d where "d < 10" "CHR 0x0A = digit_char d" using str_nat_digits by blast
  then show False using digit_char_not_newline by metis
qed

lemma strftime_hms_no_newline: "CHR 0x0A \<notin> set (strftime_hms t)"
  by (simp add: strftime_hms_def pad2_no_newline)

lemma length_strftime_hms: "valid_datetime t \<Longrightarrow> length (strftime_hms t) = 8"
  by (simp add: strftime_hms_def pad2_digits valid_datetime_def)

lemma split_lines_txt:
  assumes "\<forall>e\<in>set es. CHR 0x0A \<notin> set (snd e)"
  shows "split_lines (concat (map txt_line es))
           = map (\<lambda>e. ''['' @ strftime_hms (fst e) @ ''] '' @ snd e) es"
proof -
  let ?body = "\<lambda>e :: datetime \<times> string. ''['' @ strftime_hms (fst e) @ ''] '' @ snd e"
  have 1: "map txt_line es = map (\<lambda>l. l @ [CHR 0x0A]) (map ?body es)"
    by (simp add: txt_line_def)
  have 2: "\<forall>l\<in>set (map ?body es). CHR 0x0A \<notin> set l"
    using assms by (auto simp: strftime_hms_no_newline)
  show ?thesis
    unfolding split_lines_def 1 by (rule lines_acc_concat[OF 2])
qed

lemma save_result:
  "save env filepath format s =
     ((if export_fails env (n_write_calls format s) then Inl OSError
       else Inr (if py_lower format = ''srt''
                 then concat (map srt_block (enumerate 1 (entries s)))
                 else concat (map txt_line (entries s)))), s)"
  by (simp add: save_def save_to_srt_def save_to_txt_def with_open_txt with_open_srt
      n_write_calls_def len_def)

lemma digit_chars:
  "digit_char 0 = CHR ''0''" "digit_char 1 = CHR ''1''" "digit_char 2 = CHR ''2''"
  "digit_char 3 = CHR ''3''" "digit_char 4 = CHR ''4''" "digit_char 5 = CHR ''5''"
  "digit_char 6 = CHR ''6''" "digit_char 7 = CHR ''7''" "digit_char 8 = CHR ''8''"
  "digit_char 9 = CHR ''9''"
  "digit_char (Suc 0) = CHR ''1''" "digit_char (Suc (Suc 0)) = CHR ''2''"
  by code_simp+

lemma ev_hms: "strftime_hms noon = ''12:00:00''" "strftime_hms before_midnight = ''23:59:59''"
  "strftime_hms (add_seconds noon 2) = ''12:00:02''"
  "strftime_hms (add_seconds before_midnight 2) = ''00:00:01''"
  by (simp_all add: strftime_hms_def pad2_digits digit_chars add_seconds_def second_of_day_def)

lemma ev_txt_two:
  "concat (map txt_line [(noon, ''A''), (before_midnight, ''B'')])
     = ''[12:00:00] A\<newline>[23:59:59] B\<newline>''"
  by (simp add: txt_line_def ev_hms)

lemma ev_srt_two:
  "concat (map srt_block (enumerate 1 [(noon, ''A''), (before_midnight, ''B'')]))
     = ''1\<newline>12:00:00,000 --> 12:00:02,000\<newline>A\<newline>\<newline>2\<newline>23:59:59,000 --> 00:00:01,000\<newline>B\<newline>\<newline>''"
  by (simp add: srt_block_def ev_hms str_nat_small digit_chars)


lemma ev_lower_formats: "py_lower ''TXT'' = ''txt''" "py_lower ''json'' = ''json''"
  "py_lower '''' = ''''" "py_lower ''SRT'' = ''srt''" "py_lower ''Srt'' = ''srt''"
  "py_lower ''srt'' = ''srt''" "py_lower ''txt'' = ''txt''"
  by code_simp+

section \<open>The invariant of the processor\<close>





lemma stripped_py_strip: "stripped t \<Longrightarrow> py_strip t = t"
proof -
  assume s: "stripped t"
  then obtain c cs where t: "t = c # cs" by (cases t) (auto simp: stripped_def)
  have 1: "dropWhile py_isspace t = t" using s t by (simp add: stripped_def)
  have "rev t \<noteq> []" using t by simp
  then obtain x xs where r: "rev t = x # xs" by (cases "rev t") auto
  have "hd (rev t) = last t" using t by (simp add: hd_rev)
  then have "x = last t" using r by simp
  then have "\<not> py_isspace x" using s by (simp add: stripped_def)
  then have 2: "dropWhile py_isspace (rev t) = rev t" using r by simp
  show ?thesis by (simp add: py_strip_def py_rstrip_def py_lstrip_def 1 2)
qed











section \<open>Adding a text\<close>

text \<open>
  C4. A text that is empty or consists of whitespace only is rejected: \<open>add_text\<close>
  returns \<open>False\<close> and the processor (entries and last accepted text) is unchanged.
\<close>

theorem add_text_blank:
  "(\<forall>c\<in>set text. py_isspace c) \<Longrightarrow> add_text now text s = (False, s)"
  by (simp add: add_text_def py_strip_blank)

theorem add_text_blank_witness:
  "add_text \<lparr>day = 738000, hour = 12, minute = 0, second = 0, microsecond = 0\<rparr> ''''
      \<lparr>similarity_threshold = 4 / 5, entries = [], last_text = ''Hello''\<rparr>
     = (False, \<lparr>similarity_threshold = 4 / 5, entries = [], last_text = ''Hello''\<rparr>)
   \<and> add_text \<lparr>day = 738000, hour = 12, minute = 0, second = 0, microsecond = 0\<rparr> ''   ''
      \<lparr>similarity_threshold = 4 / 5, entries = [], last_text = ''Hello''\<rparr>
     = (False, \<lparr>similarity_threshold = 4 / 5, entries = [], last_text = ''Hello''\<rparr>)"
  using add_text_blank[of "''''"] add_text_blank[of "''   ''"]
  by (simp add: py_isspace_def)

text \<open>
  C1. For a text whose trimmed form is not empty: when its similarity to the last
  accepted text is below the threshold (or nothing has been accepted yet, which the
  source accepts without comparing), \<open>add_text\<close> appends the entry \<open>(now, text)\<close> with the
  trimmed text, makes it the last accepted text, returns \<open>True\<close>, and the number of
  entries grows by exactly 1; when there is a last accepted text and the similarity is
  at least the threshold, \<open>add_text\<close> returns \<open>False\<close> and changes nothing.
\<close>

theorem add_text_decision:
  assumes "py_strip text \<noteq> []"
  shows "(last_text s = [] \<or> get_similarity (last_text s) (py_strip text) < similarity_threshold s
            \<longrightarrow> add_text now text s
                  = (True, s\<lparr>entries := entries s @ [(now, py_strip text)],
                            last_text := py_strip text\<rparr>)
                \<and> len (snd (add_text now text s)) = len s + 1)
       \<and> (last_text s \<noteq> [] \<and> get_similarity (last_text s) (py_strip text) \<ge> similarity_threshold s
            \<longrightarrow> add_text now text s = (False, s))"
  using assms
  by (auto simp: add_text_def is_duplicate_def get_similarity_def Let_def len_def)

theorem add_text_decision_witness:
  "add_text \<lparr>day = 738000, hour = 12, minute = 0, second = 1, microsecond = 0\<rparr>
      ''New text.''
      \<lparr>similarity_threshold = 4 / 5,
       entries = [(\<lparr>day = 738000, hour = 12, minute = 0, second = 0, microsecond = 0\<rparr>,
                   ''Hello, world!'')],
       last_text = ''Hello, world!''\<rparr>
    = (True,
       \<lparr>similarity_threshold = 4 / 5,
        entries = [(\<lparr>day = 738000, hour = 12, minute = 0, second = 0, microsecond = 0\<rparr>,
                    ''Hello, world!''),
                   (\<lparr>day = 738000, hour = 12, minute = 0, second = 1, microsecond = 0\<rparr>,
                    ''New text.'')],
        last_text = ''New text.''\<rparr>)
   \<and> add_text \<lparr>day = 738000, hour = 12, minute = 0, second = 1, microsecond = 0\<rparr>
      '' Hello, World! ''
      \<lparr>similarity_threshold = 4 / 5,
       entries = [(\<lparr>day = 738000, hour = 12, minute = 0, second = 0, microsecond = 0\<rparr>,
                   ''Hello, world!'')],
       last_text = ''Hello, world!''\<rparr>
    = (False,
       \<lparr>similarity_threshold = 4 / 5,
        entries = [(\<lparr>day = 738000, hour = 12, minute = 0, second = 0, microsecond = 0\<rparr>,
                    ''Hello, world!'')],
        last_text = ''Hello, world!''\<rparr>)"
  using add_text_decision[of "''New text.''"
      "\<lparr>similarity_threshold = 4 / 5,
       entries = [(\<lparr>day = 738000, hour = 12, minute = 0, second = 0, microsecond = 0\<rparr>,
                   ''Hello, world!'')],
       last_text = ''Hello, world!''\<rparr>"
      "\<lparr>day = 738000, hour = 12, minute = 0, second = 1, microsecond = 0\<rparr>"]
    add_text_decision[of "'' Hello, World! ''"
      "\<lparr>similarity_threshold = 4 / 5,
       entries = [(\<lparr>day = 738000, hour = 12, minute = 0, second = 0, microsecond = 0\<rparr>,
                   ''Hello, world!'')],
       last_text = ''Hello, world!''\<rparr>"
      "\<lparr>day = 738000, hour = 12, minute = 0, second = 1, microsecond = 0\<rparr>"]
  by (simp add: ev_strip_new ev_sim_new ev_strip_case ev_sim_case)

section \<open>Exporting\<close>




text \<open>
  C6 (as amended). Exporting in the txt format writes, for each entry in insertion
  order, the text \<open>[HH:MM:SS] text\<close> followed by a line feed, with the time of the
  entry's timestamp. When no entry's text contains a line feed, the file has exactly one
  line per entry. (A text with a line feed inside, which \<open>add_text\<close> accepts, takes
  several lines.)
\<close>

theorem save_to_txt_lines:
  assumes "no_io_failure env"
  shows "fst (save_to_txt env filepath s) = Inr (concat (map txt_line (entries s)))
       \<and> ((\<forall>e\<in>set (entries s). CHR 0x0A \<notin> set (snd e)) \<longrightarrow>
            split_lines (concat (map txt_line (entries s)))
              = map (\<lambda>e. ''['' @ strftime_hms (fst e) @ ''] '' @ snd e) (entries s))
       \<and> (\<forall>e\<in>set (entries s). valid_datetime (fst e) \<longrightarrow>
            length (strftime_hms (fst e)) = 8
            \<and> hms_seconds (strftime_hms (fst e)) = second_of_day (fst e))"
proof -
  have "fst (save_to_txt env filepath s) = Inr (concat (map txt_line (entries s)))"
    using no_io_failure_not_fails[OF assms]
    by (simp add: save_to_txt_def with_open_txt)
  then show ?thesis
    by (simp add: split_lines_txt length_strftime_hms hms_seconds_strftime)
qed

theorem save_to_txt_lines_witness:
  "fst (save_to_txt io_ok ''subtitles.txt'' two_entries)
     = Inr ''[12:00:00] A\<newline>[23:59:59] B\<newline>''
   \<and> split_lines ''[12:00:00] A\<newline>[23:59:59] B\<newline>'' = [''[12:00:00] A'', ''[23:59:59] B'']
   \<and> length ''12:00:00'' = 8"
  using save_to_txt_lines[of io_ok "''subtitles.txt''" two_entries]
  by (simp add: no_io_failure_def txt_line_def ev_hms valid_datetime_def)

text \<open>
  The claim as stated, one line per entry in every state, fails for an accepted text
  that contains a line feed: one entry, two lines.
\<close>

theorem save_to_txt_multiline_entry:
  "add_text noon ''a\<newline>b'' (init default_threshold)
     = (True, \<lparr>similarity_threshold = 4 / 5, entries = [(noon, ''a\<newline>b'')],
               last_text = ''a\<newline>b''\<rparr>)
   \<and> fst (save_to_txt io_ok ''subtitles.txt''
            \<lparr>similarity_threshold = 4 / 5, entries = [(noon, ''a\<newline>b'')],
             last_text = ''a\<newline>b''\<rparr>)
       = Inr ''[12:00:00] a\<newline>b\<newline>''
   \<and> split_lines ''[12:00:00] a\<newline>b\<newline>'' = [''[12:00:00] a'', ''b'']
   \<and> len \<lparr>similarity_threshold = 4 / 5, entries = [(noon, ''a\<newline>b'')],
           last_text = ''a\<newline>b''\<rparr> = 1"
proof -
  have 1: "py_strip ''a\<newline>b'' = ''a\<newline>b''" by code_simp
  have 2: "fst (save_to_txt io_ok ''subtitles.txt''
            \<lparr>similarity_threshold = 4 / 5, entries = [(noon, ''a\<newline>b'')],
             last_text = ''a\<newline>b''\<rparr>)
       = Inr ''[12:00:00] a\<newline>b\<newline>''"
    by (simp add: save_to_txt_def with_open_txt export_fails_def txt_line_def ev_hms)
  have 3: "split_lines ''[12:00:00] a\<newline>b\<newline>'' = [''[12:00:00] a'', ''b'']"
    by (simp add: split_lines_def)
  show ?thesis
    using 2 3
    by (simp add: add_text_def 1 is_duplicate_def init_def default_threshold_def len_def Let_def)
qed

text \<open>
  C8. An export never changes the processor, in either format; and when a call of the
  export fails (creating the directory, opening the file, one of the writes, or closing
  the file), the export ends with that error, which no method catches: it reaches the
  caller.
\<close>

theorem save_failure_propagates:
  "snd (save env filepath format s) = s
   \<and> snd (save_to_txt env filepath s) = s
   \<and> snd (save_to_srt env filepath s) = s
   \<and> (export_fails env (n_write_calls format s)
        \<longrightarrow> save env filepath format s = (Inl OSError, s))"
  by (simp add: save_result save_to_txt_def save_to_srt_def)

theorem save_failure_propagates_witness:
  "save io_second_write_fails ''subtitles.txt'' ''txt'' two_entries = (Inl OSError, two_entries)
   \<and> save io_second_write_fails ''subtitles.srt'' ''srt'' two_entries = (Inl OSError, two_entries)"
  using save_failure_propagates[of io_second_write_fails "''subtitles.txt''" "''txt''" two_entries]
    save_failure_propagates[of io_second_write_fails "''subtitles.srt''" "''srt''" two_entries]
  by (simp add: export_fails_def n_write_calls_def len_def ev_lower_formats)

text \<open>
  C10. \<open>save\<close> writes the srt format exactly when the format string, in lower case, is
  \<open>srt\<close>; for every other string (\<open>TXT\<close>, \<open>json\<close>, the empty string, ...) it writes the
  txt format. No format string is rejected: \<open>save\<close> fails only when a call of the
  export fails.
\<close>

theorem save_format:
  "(no_io_failure env \<longrightarrow>
      fst (save env filepath format s)
        = Inr (if py_lower format = ''srt''
               then concat (map srt_block (enumerate 1 (entries s)))
               else concat (map txt_line (entries s))))
   \<and> (\<forall>e. fst (save env filepath format s) = Inl e
            \<longrightarrow> e = OSError \<and> export_fails env (n_write_calls format s))
   \<and> save env filepath format s
       = (if py_lower format = ''srt'' then save_to_srt env filepath s
          else save_to_txt env filepath s)"
proof -
  have "save env filepath format s
       = (if py_lower format = ''srt'' then save_to_srt env filepath s
          else save_to_txt env filepath s)"
    by (simp add: save_def)
  moreover have "no_io_failure env \<longrightarrow>
      fst (save env filepath format s)
        = Inr (if py_lower format = ''srt''
               then concat (map srt_block (enumerate 1 (entries s)))
               else concat (map txt_line (entries s)))"
    by (simp add: save_result no_io_failure_not_fails)
  moreover have "\<forall>e. fst (save env filepath format s) = Inl e
            \<longrightarrow> e = OSError \<and> export_fails env (n_write_calls format s)"
    by (auto simp: save_result split: if_splits)
  ultimately show ?thesis by blast
qed

theorem save_format_witness:
  "fst (save io_ok ''out'' ''TXT'' two_entries) = Inr ''[12:00:00] A\<newline>[23:59:59] B\<newline>''
   \<and> fst (save io_ok ''out'' ''json'' two_entries) = Inr ''[12:00:00] A\<newline>[23:59:59] B\<newline>''
   \<and> fst (save io_ok ''out'' '''' two_entries) = Inr ''[12:00:00] A\<newline>[23:59:59] B\<newline>''
   \<and> fst (save io_ok ''out'' ''Srt'' two_entries)
       = Inr ''1\<newline>12:00:00,000 --> 12:00:02,000\<newline>A\<newline>\<newline>2\<newline>23:59:59,000 --> 00:00:01,000\<newline>B\<newline>\<newline>''"
  using save_format[of io_ok "''out''" "''TXT''" two_entries, THEN conjunct1]
    save_format[of io_ok "''out''" "''json''" two_entries, THEN conjunct1]
    save_format[of io_ok "''out''" "''''" two_entries, THEN conjunct1]
    save_format[of io_ok "''out''" "''Srt''" two_entries, THEN conjunct1]
  by (simp add: no_io_failure_def ev_lower_formats txt_line_def srt_block_def ev_hms
      str_nat_small digit_chars)


section \<open>Clearing\<close>

text \<open>
  C7 (as amended). \<open>clear\<close> empties the entries and resets the last accepted text. For
  every text whose trimmed form is not empty, \<open>clear\<close> followed by \<open>add_text\<close> yields
  exactly one entry, the new one; the duplicate check compares it with nothing accepted
  before the clear (the outcome depends on the earlier processor through its threshold
  field only, which is copied).
\<close>

theorem clear_then_add:
  assumes "py_strip text \<noteq> []"
  shows "entries (clear s) = [] \<and> last_text (clear s) = []
       \<and> \<not> is_duplicate (clear s) (py_strip text)
       \<and> add_text now text (clear s)
           = (True, \<lparr>similarity_threshold = similarity_threshold s,
                     entries = [(now, py_strip text)],
                     last_text = py_strip text\<rparr>)
       \<and> len (snd (add_text now text (clear s))) = 1"
  using assms
  by (simp add: clear_def add_text_def is_duplicate_def len_def Let_def)

theorem clear_then_add_witness:
  "add_text noon ''X'' (clear two_entries)
     = (True, \<lparr>similarity_threshold = 4 / 5, entries = [(noon, ''X'')], last_text = ''X''\<rparr>)
   \<and> len (snd (add_text noon ''X'' (clear two_entries))) = 1"
proof -
  have x: "py_strip ''X'' = ''X''" by code_simp
  show ?thesis
    using clear_then_add[of "''X''" two_entries noon] by (simp add: x clear_def len_def)
qed

text \<open>
  The claim as stated covers every non-empty string; a string of one space is not
  empty, and adding it after a clear yields no entry.
\<close>

theorem clear_then_add_space:
  "'' '' \<noteq> [] \<and> add_text noon '' '' (clear two_entries) = (False, clear two_entries)
   \<and> len (snd (add_text noon '' '' (clear two_entries))) = 0"
proof -
  have x: "py_strip '' '' = []" by code_simp
  show ?thesis by (simp add: add_text_def x clear_def len_def Let_def)
qed

section \<open>Capture\<close>

text \<open>
  C9 (as amended). When the capture region is unset, \<open>capture\<close> returns no image; and a
  tick whose capture returns no image makes no call to the grabber or to the OCR engine,
  adds nothing, and leaves the window state, the processor included, unchanged. (A
  region of zero width or height is a set region: \<open>capture\<close> grabs it.)
\<close>

theorem capture_unset_tick_skipped:
  "(region (mw_capture mw) = None \<longrightarrow> capture grab (mw_capture mw) = Inr None)
   \<and> (capture grab (mw_capture mw) = Inr None \<longrightarrow>
        on_capture_tick grab extract_text now mw = (Inr (), [], mw))"
  by (auto simp: capture_def on_capture_tick_def split: option.splits sum.splits)

theorem capture_unset_tick_skipped_witness:
  "capture (\<lambda>r. Inr r)
      (mw_capture \<lparr>mw_capture = \<lparr>region = None\<rparr>, processor = two_entries,
                   result_text = [''A'', ''B''], stats_label = ''2 subtitle(s) captured''\<rparr>)
     = (Inr None :: py_error + rect option)
   \<and> on_capture_tick (\<lambda>r. Inr r) (\<lambda>img. Inr ''Hello'') noon
        \<lparr>mw_capture = \<lparr>region = None\<rparr>, processor = two_entries,
         result_text = [''A'', ''B''], stats_label = ''2 subtitle(s) captured''\<rparr>
     = (Inr (), [],
        \<lparr>mw_capture = \<lparr>region = None\<rparr>, processor = two_entries,
         result_text = [''A'', ''B''], stats_label = ''2 subtitle(s) captured''\<rparr>)"
  using capture_unset_tick_skipped[of
      "\<lparr>mw_capture = \<lparr>region = None\<rparr>, processor = two_entries,
        result_text = [''A'', ''B''], stats_label = ''2 subtitle(s) captured''\<rparr>"
      "\<lambda>r. Inr r" "\<lambda>img. Inr ''Hello''" noon]
  by simp

text \<open>
  The claim as stated also covers an empty region. The region \<open>(0, 0, 0, 0)\<close> is set,
  so \<open>capture\<close> calls the grabber and returns what it returns: an image, or its error.
\<close>

theorem capture_empty_region:
  "capture (\<lambda>r. Inr r) \<lparr>region = Some (0, 0, 0, 0)\<rparr>
     = (Inr (Some (0, 0, 0, 0)) :: py_error + rect option)
   \<and> capture (\<lambda>r. Inl ScreenShotError) \<lparr>region = Some (0, 0, 0, 0)\<rparr>
     = (Inl ScreenShotError :: py_error + rect option)
   \<and> fst (snd (on_capture_tick (\<lambda>r. Inr r) (\<lambda>img. Inr ''Hello'') noon
        \<lparr>mw_capture = \<lparr>region = Some (0, 0, 0, 0)\<rparr>, processor = init default_threshold,
         result_text = [], stats_label = []\<rparr>))
     = [Grab (0, 0, 0, 0), Ocr (0, 0, 0, 0)]"
  by (auto simp: capture_def on_capture_tick_def Let_def split: prod.splits)

section \<open>Adjacent entries\<close>



end
